theory Spec2Isabelle
  imports Complex_Main "HOL-Library.Multiset" "HOL-Library.Product_Lexorder"
begin

section \<open>Data model\<close>

text \<open>
  The query of \<^verbatim>\<open>days_unusual_sale_counts\<close> is
  \<^verbatim>\<open>select orderdate::date, count (*) from sales.salesorderheader group by orderdate::date\<close>,
  so the frame \<^verbatim>\<open>transaction_counts\<close> has the two columns \<^verbatim>\<open>orderdate\<close> and
  \<^verbatim>\<open>count\<close>. A date is (year, month, day), ordered lexicographically; a count is an
  integer. The column \<^verbatim>\<open>count\<close> is called \<open>count_col\<close> here, since \<open>count\<close> is the
  multiplicity function of multisets.
\<close>

type_synonym date = "nat \<times> nat \<times> nat"

record daily_count =
  orderdate :: date
  count_col :: int

type_synonym frame = "daily_count list"

subsection \<open>Floating-point values\<close>

text \<open>
  The quantiles and the bounds are pandas floats. A float is modelled as an exact rational
  or NaN: every operation below is the exact one, and NaN propagates through arithmetic
  and makes every comparison false, as in IEEE 754. Rounding is not modelled. For the
  fractions 0.25 and 0.75 the rank index is a multiple of 1/4 and the bounds are multiples
  of 1/8 of integers, so on counts of realistic size (below \<open>2 ^ 48\<close>) the 64-bit
  computation is exact and agrees with this model.
\<close>

datatype float64 = NaN | Val rat

fun fsub :: "float64 \<Rightarrow> float64 \<Rightarrow> float64" where
  "fsub (Val a) (Val b) = Val (a - b)"
| "fsub _ _ = NaN"

fun fadd :: "float64 \<Rightarrow> float64 \<Rightarrow> float64" where
  "fadd (Val a) (Val b) = Val (a + b)"
| "fadd _ _ = NaN"

fun fmul :: "float64 \<Rightarrow> float64 \<Rightarrow> float64" where
  "fmul (Val a) (Val b) = Val (a * b)"
| "fmul _ _ = NaN"

fun fle :: "float64 \<Rightarrow> float64 \<Rightarrow> bool" where
  "fle (Val a) (Val b) = (a \<le> b)"
| "fle _ _ = False"

section \<open>The library calls of the detector\<close>

text \<open>
  \<^verbatim>\<open>Series.quantile(q)\<close> with the default \<^verbatim>\<open>interpolation='linear'\<close>, as pandas documents
  it and numpy computes it: the values are ordered, the virtual index of the fraction \<open>p\<close>
  is \<open>p * (n - 1)\<close>, the two neighbours are the values at its floor and at the next
  position (both the last value when the index reaches \<open>n - 1\<close>), and the result
  interpolates between them by the fractional part. On an empty series the result is NaN.
\<close>

definition lerp :: "rat \<Rightarrow> rat \<Rightarrow> rat \<Rightarrow> rat" where
  "lerp a b t = (if 1 / 2 \<le> t then b - (b - a) * (1 - t) else a + (b - a) * t)"

definition linear_interpolation :: "int list \<Rightarrow> rat \<Rightarrow> rat" where
  \<comment> \<open>the value of the ordered values \<open>s\<close> at a virtual index\<close>
  "linear_interpolation s virtual_index =
     (let n = length s;
          previous_index = (if of_nat n - 1 \<le> virtual_index then n - 1
                            else nat \<lfloor>virtual_index\<rfloor>);
          next_index = (if of_nat n - 1 \<le> virtual_index then n - 1
                        else nat \<lfloor>virtual_index\<rfloor> + 1);
          gamma = virtual_index - of_int \<lfloor>virtual_index\<rfloor>
      in lerp (of_int (s ! previous_index)) (of_int (s ! next_index)) gamma)"

definition quantile :: "int list \<Rightarrow> rat \<Rightarrow> float64" where
  "quantile xs p =
     (if xs = [] then NaN
      else Val (linear_interpolation (sort xs) (p * (of_nat (length xs) - 1))))"

text \<open>
  \<^verbatim>\<open>Series.between(left, right)\<close> with the default \<^verbatim>\<open>inclusive='both'\<close>:
  \<^verbatim>\<open>(self >= left) & (self <= right)\<close>.
\<close>

definition between :: "float64 \<Rightarrow> float64 \<Rightarrow> int \<Rightarrow> bool" where
  "between left right x \<longleftrightarrow> fle left (Val (of_int x)) \<and> fle (Val (of_int x)) right"

text \<open>
  \<^verbatim>\<open>DataFrame.sort_values(by=["orderdate"])\<close>: the rows in ascending order of the date.
  The order pandas gives to rows of equal date is not documented (its default sort is not
  stable); here such rows keep their input order, and the statements below that depend on
  the order of rows are made for frames with one row per date, as \<^verbatim>\<open>group by\<close> gives.
\<close>

definition sort_values :: "frame \<Rightarrow> frame" where
  "sort_values df = sort_key orderdate df"

section \<open>The detector\<close>

text \<open>Lines 61 to 74 of \<^verbatim>\<open>days_unusual_sale_counts\<close>, on the frame read from the query.\<close>

definition q_1 :: "frame \<Rightarrow> float64" where
  "q_1 transaction_counts = quantile (map count_col transaction_counts) (1 / 4)"

definition q_3 :: "frame \<Rightarrow> float64" where
  "q_3 transaction_counts = quantile (map count_col transaction_counts) (3 / 4)"

definition iqr :: "frame \<Rightarrow> float64" where
  "iqr transaction_counts = fsub (q_3 transaction_counts) (q_1 transaction_counts)"

definition lower_bound :: "frame \<Rightarrow> float64" where
  "lower_bound transaction_counts =
     fsub (q_1 transaction_counts) (fmul (Val (3 / 2)) (iqr transaction_counts))"

definition upper_bound :: "frame \<Rightarrow> float64" where
  "upper_bound transaction_counts =
     fadd (q_3 transaction_counts) (fmul (Val (3 / 2)) (iqr transaction_counts))"

definition anomalies :: "frame \<Rightarrow> frame" where
  "anomalies transaction_counts =
     sort_values
       (filter (\<lambda>r. \<not> between (lower_bound transaction_counts)
                                (upper_bound transaction_counts) (count_col r))
          transaction_counts)"

section \<open>The percentile as the specification words it\<close>

text \<open>
  For a sorted sequence of \<open>n\<close> values, the percentile at fraction \<open>p\<close> is the value at
  rank index \<open>p * (n - 1)\<close>, interpolating linearly between the two bracketing sorted
  values (the ones at the floor and at the ceiling of the index) when that index is not
  an integer.
\<close>

definition percentile_spec :: "int list \<Rightarrow> rat \<Rightarrow> rat" where
  "percentile_spec xs p =
     (let sorted_values = sort xs;
          rank = p * (of_nat (length sorted_values) - 1)
      in if of_int \<lfloor>rank\<rfloor> = rank then of_int (sorted_values ! nat \<lfloor>rank\<rfloor>)
         else let below = of_int (sorted_values ! nat \<lfloor>rank\<rfloor>);
                  above = of_int (sorted_values ! nat \<lceil>rank\<rceil>)
              in below + (rank - of_int \<lfloor>rank\<rfloor>) * (above - below))"

section \<open>The program\<close>

text \<open>
  What the program reads from outside is gathered in a record: the files that
  \<^verbatim>\<open>ConfigParser.read\<close> can open, each as its sections in order with their
  (key, value) items; the exception, if any, that \<^verbatim>\<open>URL.create\<close> or
  \<^verbatim>\<open>create_engine\<close> raise on the parameters read; and what \<^verbatim>\<open>engine.connect()\<close>
  followed by \<^verbatim>\<open>pd.read_sql\<close> gives: the rows of the query, or the exception raised
  when the server is unreachable or rejects the credentials. SQLAlchemy builds the engine
  lazily: \<^verbatim>\<open>create_engine\<close> opens no connection, the first one is opened by
  \<^verbatim>\<open>engine.connect()\<close>. Writing the CSV file is taken to succeed.
\<close>

datatype error =
    ValueError string
  | EngineError string
  | OperationalError string

type_synonym config_file = "(string \<times> (string \<times> string) list) list"

type_synonym engine = "string \<rightharpoonup> string"

record world =
  files :: "string \<rightharpoonup> config_file"
  engine_error :: "string option"
  database :: "error + frame"

definition parser_read :: "(string \<rightharpoonup> config_file) \<Rightarrow> string \<Rightarrow> config_file" where
  \<comment> \<open>a file that cannot be opened is skipped, leaving a parser with no section\<close>
  "parser_read fs filename = (case fs filename of None \<Rightarrow> [] | Some sections \<Rightarrow> sections)"

definition has_section :: "config_file \<Rightarrow> string \<Rightarrow> bool" where
  "has_section parser name \<longleftrightarrow> name \<in> set (map fst parser)"

definition items :: "config_file \<Rightarrow> string \<Rightarrow> (string \<times> string) list" where
  "items parser name = (case map_of parser name of None \<Rightarrow> [] | Some params \<Rightarrow> params)"

definition get_config :: "(string \<rightharpoonup> config_file) \<Rightarrow> string \<Rightarrow> error + (string \<rightharpoonup> string)" where
  "get_config fs filename =
     (let config = ''postgresql'';
          parser = parser_read fs filename;
          db_config = Map.empty
      in if has_section parser config
         then Inr (fold (\<lambda>param d. d(fst param \<mapsto> snd param)) (items parser config) db_config)
         else Inl (ValueError (''Section postgresql not found in '' @ filename)))"

definition create_engine :: "world \<Rightarrow> (string \<rightharpoonup> string) \<Rightarrow> error + engine" where
  \<comment> \<open>\<^verbatim>\<open>create_engine(URL.create(drivername="postgresql", **params))\<close>\<close>
  "create_engine w params =
     (case engine_error w of
        Some msg \<Rightarrow> Inl (EngineError msg)
      | None \<Rightarrow> Inr (params(''drivername'' \<mapsto> ''postgresql'')))"

fun str :: "error \<Rightarrow> string" where
  "str (ValueError msg) = msg"
| "str (EngineError msg) = msg"
| "str (OperationalError msg) = msg"

text \<open>
  \<^verbatim>\<open>connect\<close> returns the lines it printed and the engine, \<open>None\<close> after any exception
  of its \<^verbatim>\<open>try\<close> block.
\<close>

definition connect :: "world \<Rightarrow> string list \<times> engine option" where
  "connect w =
     (case get_config (files w) ''database.ini'' of
        Inl error \<Rightarrow> ([str error], None)
      | Inr params \<Rightarrow>
          (case create_engine w params of
             Inl error \<Rightarrow> ([str error], None)
           | Inr db_engine \<Rightarrow> ([], Some db_engine)))"

text \<open>
  \<^verbatim>\<open>days_unusual_sale_counts\<close> returns the rows it wrote to
  \<^verbatim>\<open>dates_unusual_sales.csv\<close>, or the exception that left it before the file was
  written. The function has no \<^verbatim>\<open>raise\<close> and no \<^verbatim>\<open>try\<close> of its own.
\<close>

definition days_unusual_sale_counts :: "world \<Rightarrow> engine \<Rightarrow> error + frame" where
  "days_unusual_sale_counts w engine =
     (case database w of
        Inl error \<Rightarrow> Inl error
      | Inr transaction_counts \<Rightarrow> Inr (anomalies transaction_counts))"

text \<open>
  A run of the script: the lines printed, and what became of the analysis: \<open>None\<close> when
  \<^verbatim>\<open>days_unusual_sale_counts\<close> was not called, otherwise its result; an \<open>Inl\<close> there is
  an exception nobody catches, which ends the program.
\<close>

record outcome =
  stdout :: "string list"
  analysis :: "(error + frame) option"

definition main :: "world \<Rightarrow> outcome" where
  "main w =
     (case connect w of
        (printed, None) \<Rightarrow> \<lparr>stdout = printed, analysis = None\<rparr>
      | (printed, Some db_engine) \<Rightarrow>
          \<lparr>stdout = printed, analysis = Some (days_unusual_sale_counts w db_engine)\<rparr>)"

section \<open>Inputs used in the examples\<close>

definition scenario_A :: frame where
  "scenario_A =
     [\<lparr>orderdate = (2024, 1, 1), count_col = 10\<rparr>,
      \<lparr>orderdate = (2024, 1, 2), count_col = 12\<rparr>,
      \<lparr>orderdate = (2024, 1, 3), count_col = 12\<rparr>,
      \<lparr>orderdate = (2024, 1, 4), count_col = 13\<rparr>,
      \<lparr>orderdate = (2024, 1, 5), count_col = 14\<rparr>,
      \<lparr>orderdate = (2024, 1, 6), count_col = 15\<rparr>,
      \<lparr>orderdate = (2024, 1, 7), count_col = 100\<rparr>]"

definition scenario_B :: frame where
  "scenario_B =
     [\<lparr>orderdate = (2024, 2, 1), count_col = 20\<rparr>,
      \<lparr>orderdate = (2024, 2, 2), count_col = 20\<rparr>,
      \<lparr>orderdate = (2024, 2, 3), count_col = 20\<rparr>,
      \<lparr>orderdate = (2024, 2, 4), count_col = 20\<rparr>,
      \<lparr>orderdate = (2024, 2, 5), count_col = 20\<rparr>]"

text \<open>Nine days whose counts 1 and 9 lie exactly on the two bounds.\<close>

definition scenario_ties :: frame where
  "scenario_ties =
     [\<lparr>orderdate = (2024, 3, 9), count_col = 10\<rparr>,
      \<lparr>orderdate = (2024, 3, 1), count_col = 0\<rparr>,
      \<lparr>orderdate = (2024, 3, 2), count_col = 1\<rparr>,
      \<lparr>orderdate = (2024, 3, 3), count_col = 4\<rparr>,
      \<lparr>orderdate = (2024, 3, 4), count_col = 5\<rparr>,
      \<lparr>orderdate = (2024, 3, 5), count_col = 5\<rparr>,
      \<lparr>orderdate = (2024, 3, 6), count_col = 5\<rparr>,
      \<lparr>orderdate = (2024, 3, 7), count_col = 6\<rparr>,
      \<lparr>orderdate = (2024, 3, 8), count_col = 9\<rparr>]"

definition good_ini :: "string \<rightharpoonup> config_file" where
  "good_ini =
     [''database.ini'' \<mapsto>
        [(''postgresql'',
          [(''host'', ''localhost''), (''database'', ''Adventureworks''),
           (''username'', ''postgres''), (''password'', ''secret'')])]]"

definition empty_world :: world where
  "empty_world = \<lparr>files = good_ini, engine_error = None, database = Inr []\<rparr>"

definition unreachable_world :: world where
  "unreachable_world =
     \<lparr>files = good_ini, engine_error = None,
      database = Inl (OperationalError ''connection refused'')\<rparr>"

definition no_section_world :: world where
  "no_section_world =
     \<lparr>files = [''database.ini'' \<mapsto> [(''mysql'', [(''host'', ''localhost'')])]],
      engine_error = None, database = Inr scenario_A\<rparr>"

section \<open>Evaluation lemmas\<close>

lemma floor_numeral_quot:
  "\<lfloor>(numeral a :: rat) / numeral b\<rfloor> = numeral a div numeral b"
  using floor_divide_of_int_eq [of "numeral a" "numeral b", where ?'a = rat] by simp

lemma q_1_scenario_A: "q_1 scenario_A = Val 12"
  by (simp add: scenario_A_def q_1_def quantile_def linear_interpolation_def lerp_def Let_def
      floor_numeral_quot)

lemma q_3_scenario_A: "q_3 scenario_A = Val (29 / 2)"
  by (simp add: scenario_A_def q_3_def quantile_def linear_interpolation_def lerp_def Let_def
      floor_numeral_quot)

lemma iqr_scenario_A: "iqr scenario_A = Val (5 / 2)"
  by (simp add: iqr_def q_1_scenario_A q_3_scenario_A)

lemma lower_bound_scenario_A: "lower_bound scenario_A = Val (33 / 4)"
  by (simp add: lower_bound_def iqr_scenario_A q_1_scenario_A)

lemma upper_bound_scenario_A: "upper_bound scenario_A = Val (73 / 4)"
  by (simp add: upper_bound_def iqr_scenario_A q_3_scenario_A)

lemma anomalies_scenario_A:
  "anomalies scenario_A = [\<lparr>orderdate = (2024, 1, 7), count_col = 100\<rparr>]"
  by (simp add: anomalies_def lower_bound_scenario_A upper_bound_scenario_A between_def
      sort_values_def) (simp add: scenario_A_def)

lemma q_1_scenario_ties: "q_1 scenario_ties = Val 4"
  by (simp add: scenario_ties_def q_1_def quantile_def linear_interpolation_def lerp_def Let_def
      floor_numeral_quot)

lemma q_3_scenario_ties: "q_3 scenario_ties = Val 6"
  by (simp add: scenario_ties_def q_3_def quantile_def linear_interpolation_def lerp_def Let_def
      floor_numeral_quot)

lemma bounds_scenario_ties:
  "lower_bound scenario_ties = Val 1" "upper_bound scenario_ties = Val 9"
  by (simp_all add: lower_bound_def upper_bound_def iqr_def q_1_scenario_ties q_3_scenario_ties)

lemma anomalies_scenario_ties:
  "anomalies scenario_ties =
     [\<lparr>orderdate = (2024, 3, 1), count_col = 0\<rparr>, \<lparr>orderdate = (2024, 3, 9), count_col = 10\<rparr>]"
  by (simp add: anomalies_def bounds_scenario_ties between_def sort_values_def)
    (simp add: scenario_ties_def)

lemma get_config_good_ini:
  "get_config good_ini ''database.ini'' =
     Inr [''host'' \<mapsto> ''localhost'', ''database'' \<mapsto> ''Adventureworks'',
          ''username'' \<mapsto> ''postgres'', ''password'' \<mapsto> ''secret'']"
  by (simp add: get_config_def good_ini_def parser_read_def has_section_def items_def)

lemma anomalies_Nil: "anomalies [] = []"
  by (simp add: anomalies_def sort_values_def)

section \<open>Scenario A\<close>

text \<open>
  C3, as the code computes it. On the counts 10, 12, 12, 13, 14, 15, 100 of January 1 to 7
  the rank index of the fraction 0.75 is \<open>0.75 * 6 = 4.5\<close>, halfway between the ordered
  values 14 and 15: the detector computes q1 = 12 and q3 = 14.5, hence iqr = 2.5 and the
  bounds 8.25 and 18.25, and flags exactly one record, January 7 with count 100.
\<close>

theorem scenario_A_bounds:
  "q_1 scenario_A = Val 12 \<and> q_3 scenario_A = Val (29 / 2) \<and> iqr scenario_A = Val (5 / 2)
   \<and> lower_bound scenario_A = Val (33 / 4) \<and> upper_bound scenario_A = Val (73 / 4)
   \<and> anomalies scenario_A = [\<lparr>orderdate = (2024, 1, 7), count_col = 100\<rparr>]"
  by (simp add: q_1_scenario_A q_3_scenario_A iqr_scenario_A lower_bound_scenario_A
      upper_bound_scenario_A anomalies_scenario_A)

text \<open>
  The values of C3 as the specification gives them (q3 = 15, iqr = 3, bounds 7.5 and 19.5)
  are not the ones computed.
\<close>

theorem scenario_A_spec_values_counterexample:
  "\<not> (q_1 scenario_A = Val 12 \<and> q_3 scenario_A = Val 15 \<and> iqr scenario_A = Val 3
      \<and> lower_bound scenario_A = Val (15 / 2) \<and> upper_bound scenario_A = Val (39 / 2)
      \<and> anomalies scenario_A = [\<lparr>orderdate = (2024, 1, 7), count_col = 100\<rparr>])"
  by (simp add: q_3_scenario_A)

section \<open>Output rows are input rows\<close>

text \<open>
  C10. Every record of the detector's output is one of the input records with both fields
  unchanged, and no record occurs more often in the output than in the input: as
  multisets, the output is contained in the input.
\<close>

theorem anomalies_subset_input: "mset (anomalies transaction_counts) \<subseteq># mset transaction_counts"
  by (simp add: anomalies_def sort_values_def)

section \<open>Linear interpolation on ordered values\<close>

lemma lerp_eq: "lerp a b t = a + (b - a) * t"
  by (simp add: lerp_def algebra_simps)

lemma linear_interpolation_last:
  "of_nat (length s) - 1 \<le> v \<Longrightarrow> linear_interpolation s v = of_int (s ! (length s - 1))"
  by (simp add: linear_interpolation_def Let_def lerp_eq)

lemma linear_interpolation_inner:
  "v < of_nat (length s) - 1 \<Longrightarrow>
   linear_interpolation s v =
     of_int (s ! nat \<lfloor>v\<rfloor>)
     + (of_int (s ! (nat \<lfloor>v\<rfloor> + 1)) - of_int (s ! nat \<lfloor>v\<rfloor>)) * (v - of_int \<lfloor>v\<rfloor>)"
  by (simp add: linear_interpolation_def Let_def lerp_eq)

lemma floor_index_in_range:
  fixes v :: rat
  assumes "0 \<le> v" "v < of_nat n - 1"
  shows "nat \<lfloor>v\<rfloor> + 1 < n"
proof -
  have fl: "0 \<le> \<lfloor>v\<rfloor>" using assms(1) by simp
  have "of_int \<lfloor>v\<rfloor> \<le> v" by simp
  then have "of_int \<lfloor>v\<rfloor> < (of_nat n - 1 :: rat)" using assms(2) by linarith
  then have "of_int \<lfloor>v\<rfloor> < (of_int (int n - 1) :: rat)" by simp
  then have "\<lfloor>v\<rfloor> < int n - 1" by (simp only: of_int_less_iff)
  then show ?thesis using fl by linarith
qed

lemma linear_interpolation_bounds:
  assumes "sorted s" "0 \<le> v" "v < of_nat (length s) - 1"
  shows "of_int (s ! nat \<lfloor>v\<rfloor>) \<le> linear_interpolation s v"
    and "linear_interpolation s v \<le> of_int (s ! (nat \<lfloor>v\<rfloor> + 1))"
proof -
  let ?a = "of_int (s ! nat \<lfloor>v\<rfloor>) :: rat"
  let ?b = "of_int (s ! (nat \<lfloor>v\<rfloor> + 1)) :: rat"
  let ?g = "v - of_int \<lfloor>v\<rfloor>"
  have r: "nat \<lfloor>v\<rfloor> + 1 < length s" using assms(2,3) by (rule floor_index_in_range)
  have "s ! nat \<lfloor>v\<rfloor> \<le> s ! (nat \<lfloor>v\<rfloor> + 1)"
    using assms(1) r by (simp add: sorted_nth_mono)
  then have d: "0 \<le> ?b - ?a" by simp
  have g0: "0 \<le> ?g" by simp
  have g1: "?g \<le> 1" by linarith
  have eq: "linear_interpolation s v = ?a + (?b - ?a) * ?g"
    using assms(3) by (rule linear_interpolation_inner)
  have "0 \<le> (?b - ?a) * ?g" using d g0 by (rule mult_nonneg_nonneg)
  then show "?a \<le> linear_interpolation s v" using eq by simp
  have "(?b - ?a) * ?g \<le> (?b - ?a) * 1" using g1 d by (rule mult_left_mono)
  then show "linear_interpolation s v \<le> ?b" using eq by simp
qed

lemma linear_interpolation_mono:
  assumes srt: "sorted s" and u0: "0 \<le> u" and uv: "u \<le> v"
  shows "linear_interpolation s u \<le> linear_interpolation s v"
proof (cases "of_nat (length s) - 1 \<le> v")
  case vlast: True
  show ?thesis
  proof (cases "of_nat (length s) - 1 \<le> u")
    case True
    then show ?thesis using vlast by (simp add: linear_interpolation_last)
  next
    case False
    then have ul: "u < of_nat (length s) - 1" by simp
    have r: "nat \<lfloor>u\<rfloor> + 1 < length s" using u0 ul by (rule floor_index_in_range)
    have "linear_interpolation s u \<le> of_int (s ! (nat \<lfloor>u\<rfloor> + 1))"
      using srt u0 ul by (rule linear_interpolation_bounds(2))
    also have "\<dots> \<le> of_int (s ! (length s - 1))"
      using srt r by (simp add: sorted_nth_mono)
    finally show ?thesis using vlast by (simp add: linear_interpolation_last)
  qed
next
  case False
  then have vl: "v < of_nat (length s) - 1" by simp
  then have ul: "u < of_nat (length s) - 1" using uv by simp
  have v0: "0 \<le> v" using u0 uv by simp
  have rv: "nat \<lfloor>v\<rfloor> + 1 < length s" using v0 vl by (rule floor_index_in_range)
  have fl: "\<lfloor>u\<rfloor> \<le> \<lfloor>v\<rfloor>" using uv by (rule floor_mono)
  show ?thesis
  proof (cases "\<lfloor>u\<rfloor> = \<lfloor>v\<rfloor>")
    case True
    have "s ! nat \<lfloor>v\<rfloor> \<le> s ! (nat \<lfloor>v\<rfloor> + 1)"
      using srt rv by (simp add: sorted_nth_mono)
    then have d: "0 \<le> (of_int (s ! (nat \<lfloor>v\<rfloor> + 1)) - of_int (s ! nat \<lfloor>v\<rfloor>) :: rat)" by simp
    have "u - of_int \<lfloor>v\<rfloor> \<le> v - of_int \<lfloor>v\<rfloor>" using uv by simp
    then have "(of_int (s ! (nat \<lfloor>v\<rfloor> + 1)) - of_int (s ! nat \<lfloor>v\<rfloor>)) * (u - of_int \<lfloor>v\<rfloor>)
        \<le> (of_int (s ! (nat \<lfloor>v\<rfloor> + 1)) - of_int (s ! nat \<lfloor>v\<rfloor>)) * (v - of_int \<lfloor>v\<rfloor>)"
      using d by (rule mult_left_mono)
    then show ?thesis
      using True by (simp add: linear_interpolation_inner [OF ul] linear_interpolation_inner [OF vl])
  next
    case False
    then have "\<lfloor>u\<rfloor> + 1 \<le> \<lfloor>v\<rfloor>" using fl by simp
    moreover have "0 \<le> \<lfloor>u\<rfloor>" using u0 by simp
    ultimately have le: "nat \<lfloor>u\<rfloor> + 1 \<le> nat \<lfloor>v\<rfloor>" by linarith
    have "linear_interpolation s u \<le> of_int (s ! (nat \<lfloor>u\<rfloor> + 1))"
      using srt u0 ul by (rule linear_interpolation_bounds(2))
    also have "\<dots> \<le> of_int (s ! nat \<lfloor>v\<rfloor>)"
      using srt le rv by (simp add: sorted_nth_mono)
    also have "\<dots> \<le> linear_interpolation s v"
      using srt v0 vl by (rule linear_interpolation_bounds(1))
    finally show ?thesis .
  qed
qed

lemma quantile_mono:
  assumes "xs \<noteq> []" "0 \<le> p" "p \<le> q"
  shows "\<exists>a b. quantile xs p = Val a \<and> quantile xs q = Val b \<and> a \<le> b"
proof -
  have n: "(0::rat) \<le> of_nat (length xs) - 1" using assms(1) by (cases xs) simp_all
  have "0 \<le> p * (of_nat (length xs) - 1)" using assms(2) n by (rule mult_nonneg_nonneg)
  moreover have "p * (of_nat (length xs) - 1) \<le> q * (of_nat (length xs) - 1)"
    using assms(3) n by (rule mult_right_mono)
  ultimately have "linear_interpolation (sort xs) (p * (of_nat (length xs) - 1))
      \<le> linear_interpolation (sort xs) (q * (of_nat (length xs) - 1))"
    by (rule linear_interpolation_mono [OF sorted_sort])
  then show ?thesis using assms(1) by (simp add: quantile_def)
qed

section \<open>Ordering of the bounds\<close>

text \<open>
  C6. For every non-empty input collection the computed bounds satisfy
  lower_bound \<open>\<le>\<close> q1 \<open>\<le>\<close> q3 \<open>\<le>\<close> upper_bound (and none of the four is NaN).
\<close>

theorem bound_ordering:
  assumes "transaction_counts \<noteq> []"
  shows "fle (lower_bound transaction_counts) (q_1 transaction_counts)
       \<and> fle (q_1 transaction_counts) (q_3 transaction_counts)
       \<and> fle (q_3 transaction_counts) (upper_bound transaction_counts)"
proof -
  have ne: "map count_col transaction_counts \<noteq> []" using assms by simp
  obtain a b where q: "quantile (map count_col transaction_counts) (1 / 4) = Val a"
      "quantile (map count_col transaction_counts) (3 / 4) = Val b" "a \<le> b"
    using quantile_mono [OF ne, of "1 / 4" "3 / 4"] by auto
  then show ?thesis
    by (simp add: lower_bound_def upper_bound_def iqr_def q_1_def q_3_def)
qed

theorem bound_ordering_witness:
  "scenario_A \<noteq> []
   \<and> fle (lower_bound scenario_A) (q_1 scenario_A)
   \<and> fle (q_1 scenario_A) (q_3 scenario_A)
   \<and> fle (q_3 scenario_A) (upper_bound scenario_A)"
  using bound_ordering [of scenario_A] by (simp add: scenario_A_def)

section \<open>The quartiles are the percentiles of the specification\<close>

lemma quantile_percentile_spec:
  assumes ne: "xs \<noteq> []" and p0: "0 \<le> p" and p1: "p \<le> 1"
  shows "quantile xs p = Val (percentile_spec xs p)"
proof -
  let ?s = "sort xs"
  let ?L = "of_nat (length xs) - 1 :: rat"
  let ?v = "p * ?L"
  have L0: "0 \<le> ?L" using ne by (cases xs) simp_all
  have v0: "0 \<le> ?v" using p0 L0 by (rule mult_nonneg_nonneg)
  have vL: "?v \<le> ?L" using mult_right_mono [OF p1 L0] by simp
  have fl0: "0 \<le> \<lfloor>?v\<rfloor>" using v0 by simp
  show ?thesis
  proof (cases "?L \<le> ?v")
    case True
    then have eq: "?v = ?L" using vL by simp
    have vi: "?v = of_int (int (length xs) - 1)" using eq by simp
    have "of_int \<lfloor>?v\<rfloor> = ?v" unfolding vi by simp
    moreover have "nat \<lfloor>?v\<rfloor> = length xs - 1" unfolding vi by simp
    moreover have "linear_interpolation ?s ?v = of_int (?s ! (length ?s - 1))"
      using True by (simp add: linear_interpolation_last)
    ultimately show ?thesis using ne by (simp add: quantile_def percentile_spec_def Let_def)
  next
    case False
    then have vl: "?v < of_nat (length ?s) - 1" by simp
    show ?thesis
    proof (cases "of_int \<lfloor>?v\<rfloor> = ?v")
      case True
      then have g: "?v - of_int \<lfloor>?v\<rfloor> = 0" by linarith
      have "linear_interpolation ?s ?v = of_int (?s ! nat \<lfloor>?v\<rfloor>)"
        by (simp only: linear_interpolation_inner [OF vl] g mult_zero_right add_0_right)
      moreover have "percentile_spec xs p = of_int (?s ! nat \<lfloor>?v\<rfloor>)"
        unfolding percentile_spec_def Let_def length_sort using True by (rule if_P)
      ultimately show ?thesis using ne by (simp only: quantile_def if_False)
    next
      case nonint: False
      then have c: "\<lceil>?v\<rceil> = \<lfloor>?v\<rfloor> + 1" by (simp add: ceiling_altdef)
      have "nat (\<lfloor>?v\<rfloor> + 1) = nat \<lfloor>?v\<rfloor> + 1" using fl0 by linarith
      then have n: "nat \<lceil>?v\<rceil> = nat \<lfloor>?v\<rfloor> + 1" by (simp only: c)
      have "percentile_spec xs p =
          of_int (?s ! nat \<lfloor>?v\<rfloor>)
          + (?v - of_int \<lfloor>?v\<rfloor>) * (of_int (?s ! nat \<lceil>?v\<rceil>) - of_int (?s ! nat \<lfloor>?v\<rfloor>))"
        unfolding percentile_spec_def Let_def length_sort using nonint by (rule if_not_P)
      also have "\<dots> = linear_interpolation ?s ?v"
        by (simp only: linear_interpolation_inner [OF vl] n mult.commute)
      finally show ?thesis using ne by (simp only: quantile_def if_False)
    qed
  qed
qed

text \<open>
  C1. For every non-empty collection of daily counts, q1 is the 25th and q3 the 75th
  percentile of the counts by linear interpolation: the value of the sorted counts at rank
  index \<open>p * (n - 1)\<close>, interpolated linearly between the two bracketing sorted values
  when that index is not an integer.
\<close>

theorem quartiles_refine_percentile_spec:
  assumes "transaction_counts \<noteq> []"
  shows "q_1 transaction_counts = Val (percentile_spec (map count_col transaction_counts) (1 / 4))
       \<and> q_3 transaction_counts = Val (percentile_spec (map count_col transaction_counts) (3 / 4))"
  using assms by (simp add: q_1_def q_3_def quantile_percentile_spec)

theorem quartiles_refine_percentile_spec_witness:
  "scenario_A \<noteq> []
   \<and> q_1 scenario_A = Val (percentile_spec (map count_col scenario_A) (1 / 4))
   \<and> q_3 scenario_A = Val (percentile_spec (map count_col scenario_A) (3 / 4))"
  using quartiles_refine_percentile_spec [of scenario_A] by (simp add: scenario_A_def)

section \<open>Identical counts\<close>

lemma linear_interpolation_constant:
  assumes all: "\<forall>x\<in>set s. x = c" and ne: "s \<noteq> []" and v0: "0 \<le> v"
  shows "linear_interpolation s v = of_int c"
proof (cases "of_nat (length s) - 1 \<le> v")
  case True
  have "s ! (length s - 1) \<in> set s" using ne by simp
  then have "s ! (length s - 1) = c" using all by blast
  then show ?thesis using True by (simp add: linear_interpolation_last)
next
  case False
  then have vl: "v < of_nat (length s) - 1" by simp
  have r: "nat \<lfloor>v\<rfloor> + 1 < length s" using v0 vl by (rule floor_index_in_range)
  then have "s ! nat \<lfloor>v\<rfloor> \<in> set s" "s ! (nat \<lfloor>v\<rfloor> + 1) \<in> set s" by simp_all
  then have "s ! nat \<lfloor>v\<rfloor> = c" "s ! (nat \<lfloor>v\<rfloor> + 1) = c" using all by blast+
  then show ?thesis by (simp add: linear_interpolation_inner [OF vl])
qed

lemma quantile_constant:
  assumes all: "\<forall>x\<in>set xs. x = c" and ne: "xs \<noteq> []" and p0: "0 \<le> p"
  shows "quantile xs p = Val (of_int c)"
proof -
  have L0: "(0::rat) \<le> of_nat (length xs) - 1" using ne by (cases xs) simp_all
  have v0: "0 \<le> p * (of_nat (length xs) - 1)" using p0 L0 by (rule mult_nonneg_nonneg)
  have "\<forall>x\<in>set (sort xs). x = c" using all by simp
  moreover have "sort xs \<noteq> []" using ne by (metis length_sort length_0_conv)
  ultimately have "linear_interpolation (sort xs) (p * (of_nat (length xs) - 1)) = of_int c"
    using v0 by (rule linear_interpolation_constant)
  then show ?thesis using ne by (simp add: quantile_def)
qed

text \<open>
  C5. For every input collection with at least one record in which all counts are the same
  value (the single-record case included), q1 and q3 are that value, iqr is 0, both bounds
  are that value, and the detector flags no record.
\<close>

theorem identical_counts:
  assumes ne: "transaction_counts \<noteq> []"
    and all: "\<forall>r\<in>set transaction_counts. count_col r = c"
  shows "q_1 transaction_counts = Val (of_int c) \<and> q_3 transaction_counts = Val (of_int c)
       \<and> iqr transaction_counts = Val 0
       \<and> lower_bound transaction_counts = Val (of_int c)
       \<and> upper_bound transaction_counts = Val (of_int c)
       \<and> anomalies transaction_counts = []"
proof -
  have a: "\<forall>x\<in>set (map count_col transaction_counts). x = c" using all by auto
  have n: "map count_col transaction_counts \<noteq> []" using ne by simp
  have q1: "q_1 transaction_counts = Val (of_int c)"
    unfolding q_1_def using a n by (rule quantile_constant) simp
  have q3: "q_3 transaction_counts = Val (of_int c)"
    unfolding q_3_def using a n by (rule quantile_constant) simp
  have i: "iqr transaction_counts = Val 0" by (simp add: iqr_def q1 q3)
  have l: "lower_bound transaction_counts = Val (of_int c)" by (simp add: lower_bound_def q1 i)
  have u: "upper_bound transaction_counts = Val (of_int c)" by (simp add: upper_bound_def q3 i)
  have "filter (\<lambda>r. \<not> between (lower_bound transaction_counts)
          (upper_bound transaction_counts) (count_col r)) transaction_counts = []"
    using all by (simp add: l u between_def filter_empty_conv)
  then have "anomalies transaction_counts = []" by (simp add: anomalies_def sort_values_def)
  then show ?thesis using q1 q3 i l u by simp
qed

theorem identical_counts_witness:
  "scenario_B \<noteq> [] \<and> set (map count_col scenario_B) = {20}
   \<and> q_1 scenario_B = Val 20 \<and> q_3 scenario_B = Val 20 \<and> iqr scenario_B = Val 0
   \<and> lower_bound scenario_B = Val 20 \<and> upper_bound scenario_B = Val 20
   \<and> anomalies scenario_B = []"
  using identical_counts [of scenario_B 20] by (simp add: scenario_B_def)

section \<open>The anomaly test\<close>

text \<open>
  C2. For every non-empty input collection both bounds are numbers, and a record of the
  input is in the output if and only if its count is strictly less than lower_bound or
  strictly greater than upper_bound; so a count equal to either bound is never flagged.
\<close>

theorem anomaly_iff_outside_bounds:
  assumes "transaction_counts \<noteq> []"
  shows "\<exists>lo hi. lower_bound transaction_counts = Val lo \<and> upper_bound transaction_counts = Val hi
      \<and> (\<forall>r. r \<in> set (anomalies transaction_counts) \<longleftrightarrow>
            r \<in> set transaction_counts \<and> (of_int (count_col r) < lo \<or> hi < of_int (count_col r)))"
proof -
  have ne: "map count_col transaction_counts \<noteq> []" using assms by simp
  obtain a b where q: "quantile (map count_col transaction_counts) (1 / 4) = Val a"
      "quantile (map count_col transaction_counts) (3 / 4) = Val b"
    using quantile_mono [OF ne, of "1 / 4" "3 / 4"] by auto
  have l: "lower_bound transaction_counts = Val (a - 3 / 2 * (b - a))"
    by (simp add: lower_bound_def iqr_def q_1_def q_3_def q)
  have u: "upper_bound transaction_counts = Val (b + 3 / 2 * (b - a))"
    by (simp add: upper_bound_def iqr_def q_1_def q_3_def q)
  have "\<forall>r. r \<in> set (anomalies transaction_counts) \<longleftrightarrow>
            r \<in> set transaction_counts \<and> (of_int (count_col r) < a - 3 / 2 * (b - a)
               \<or> b + 3 / 2 * (b - a) < of_int (count_col r))"
    by (auto simp add: anomalies_def sort_values_def between_def l u not_le)
  then show ?thesis using l u by blast
qed


theorem anomaly_iff_outside_bounds_witness:
  "scenario_ties \<noteq> []
   \<and> (\<exists>lo hi. lower_bound scenario_ties = Val lo \<and> upper_bound scenario_ties = Val hi
      \<and> (\<forall>r. r \<in> set (anomalies scenario_ties) \<longleftrightarrow>
            r \<in> set scenario_ties \<and> (of_int (count_col r) < lo \<or> hi < of_int (count_col r))))"
  using anomaly_iff_outside_bounds [of scenario_ties] by (simp add: scenario_ties_def)

section \<open>Order of the output\<close>

lemma quantile_mset:
  assumes "mset xs = mset ys"
  shows "quantile xs p = quantile ys p"
proof -
  have "sort xs = sort ys"
    using assms by (metis sorted_list_of_multiset_mset)
  moreover have "length xs = length ys" using assms by (rule mset_eq_length)
  moreover have "xs = [] \<longleftrightarrow> ys = []" using assms by (metis mset_zero_iff)
  ultimately show ?thesis by (simp add: quantile_def)
qed

lemma bounds_mset:
  assumes "mset tc' = mset tc"
  shows "lower_bound tc' = lower_bound tc" "upper_bound tc' = upper_bound tc"
proof -
  have "mset (map count_col tc') = mset (map count_col tc)"
    using assms by (metis mset_map)
  then have "quantile (map count_col tc') p = quantile (map count_col tc) p" for p
    by (rule quantile_mset)
  then show "lower_bound tc' = lower_bound tc" "upper_bound tc' = upper_bound tc"
    by (simp_all add: lower_bound_def upper_bound_def iqr_def q_1_def q_3_def)
qed

lemma sort_values_unique:
  assumes d: "distinct (map orderdate xs)" and m: "mset ys = mset xs"
  shows "sort_values ys = sort_values xs"
proof -
  have s: "set ys = set xs" using m by (rule mset_eq_setD)
  have dy: "distinct (map orderdate ys)"
    using d m by (metis distinct_map mset_eq_setD mset_eq_imp_distinct_iff)
  have inj: "inj_on orderdate (set xs)" using d by (simp add: distinct_map)
  let ?a = "map orderdate (sort_key orderdate ys)"
  let ?b = "map orderdate (sort_key orderdate xs)"
  have sa: "sorted ?a" and sb: "sorted ?b" by simp_all
  have da: "distinct ?a" using dy by (simp add: distinct_map)
  have db: "distinct ?b" using d by (simp add: distinct_map)
  have st: "set ?a = set ?b" using s by simp
  have "?a = ?b" using sa da sb db st by (rule sorted_distinct_set_unique)
  moreover have "inj_on orderdate (set (sort_key orderdate ys) \<union> set (sort_key orderdate xs))"
    using inj s by simp
  ultimately have "sort_key orderdate ys = sort_key orderdate xs"
    by (simp add: inj_on_map_eq_map)
  then show ?thesis by (simp add: sort_values_def)
qed

text \<open>
  C7. For every input collection with one record per date, the sequence of anomaly records
  is sorted ascending (non-decreasing) by date, and it is the same for every reordering of
  the input records.
\<close>

theorem output_sorted_and_order_independent:
  assumes d: "distinct (map orderdate transaction_counts)"
    and m: "mset reordered = mset transaction_counts"
  shows "sorted (map orderdate (anomalies transaction_counts))
       \<and> anomalies reordered = anomalies transaction_counts"
proof -
  let ?P = "\<lambda>r. \<not> between (lower_bound transaction_counts)
                (upper_bound transaction_counts) (count_col r)"
  have "distinct (map orderdate (filter ?P transaction_counts))"
    using d by (simp add: distinct_map_filter)
  moreover have "mset (filter ?P reordered) = mset (filter ?P transaction_counts)"
    using m by simp
  ultimately have "sort_values (filter ?P reordered) = sort_values (filter ?P transaction_counts)"
    by (rule sort_values_unique)
  then have "anomalies reordered = anomalies transaction_counts"
    by (simp add: anomalies_def bounds_mset [OF m])
  moreover have "sorted (map orderdate (anomalies transaction_counts))"
    by (simp add: anomalies_def sort_values_def)
  ultimately show ?thesis by simp
qed

theorem output_sorted_and_order_independent_witness:
  "distinct (map orderdate scenario_A) \<and> mset (rev scenario_A) = mset scenario_A
   \<and> sorted (map orderdate (anomalies scenario_A))
   \<and> anomalies (rev scenario_A) = anomalies scenario_A"
proof -
  have d: "distinct (map orderdate scenario_A)" by (simp add: scenario_A_def)
  have m: "mset (rev scenario_A) = mset scenario_A" by simp
  show ?thesis using d m output_sorted_and_order_independent [OF d m] by simp
qed

section \<open>Failures before the analysis\<close>

text \<open>
  C9. If the section \<^verbatim>\<open>postgresql\<close> is absent from the configuration source,
  \<^verbatim>\<open>get_config\<close> raises a \<^verbatim>\<open>ValueError\<close>, its message is printed, and the run ends
  without calling the analysis.
\<close>

theorem missing_section_reported_no_analysis:
  assumes "\<not> has_section (parser_read (files w) ''database.ini'') ''postgresql''"
  shows "get_config (files w) ''database.ini''
           = Inl (ValueError ''Section postgresql not found in database.ini'')
       \<and> main w = \<lparr>stdout = [''Section postgresql not found in database.ini''], analysis = None\<rparr>"
  using assms by (simp add: get_config_def main_def connect_def)

theorem missing_section_reported_no_analysis_witness:
  "\<not> has_section (parser_read (files no_section_world) ''database.ini'') ''postgresql''
   \<and> get_config (files no_section_world) ''database.ini''
           = Inl (ValueError ''Section postgresql not found in database.ini'')
   \<and> main no_section_world
       = \<lparr>stdout = [''Section postgresql not found in database.ini''], analysis = None\<rparr>"
proof -
  have h: "\<not> has_section (parser_read (files no_section_world) ''database.ini'') ''postgresql''"
    by (simp add: no_section_world_def parser_read_def has_section_def)
  show ?thesis using h missing_section_reported_no_analysis [OF h] by simp
qed

text \<open>
  C8, evaluated on a run where the configuration is complete and the server refuses the
  connection. \<^verbatim>\<open>connect\<close> prints nothing and returns an engine, the analysis is called,
  and the exception of \<^verbatim>\<open>engine.connect()\<close> leaves \<^verbatim>\<open>days_unusual_sale_counts\<close>
  uncaught.
\<close>

theorem unreachable_database_uncaught:
  "connect unreachable_world
     = ([], Some [''host'' \<mapsto> ''localhost'', ''database'' \<mapsto> ''Adventureworks'',
          ''username'' \<mapsto> ''postgres'', ''password'' \<mapsto> ''secret'', ''drivername'' \<mapsto> ''postgresql''])
   \<and> main unreachable_world
     = \<lparr>stdout = [], analysis = Some (Inl (OperationalError ''connection refused''))\<rparr>"
  by (simp add: main_def connect_def unreachable_world_def get_config_good_ini create_engine_def
      days_unusual_sale_counts_def)

section \<open>Empty input\<close>

text \<open>
  C4 fails: on a run whose query returns no row, nothing is raised and the CSV file is
  written, with no data row.
\<close>

theorem empty_input_counterexample:
  "database empty_world = Inr []
   \<and> main empty_world = \<lparr>stdout = [], analysis = Some (Inr [])\<rparr>"
  by (simp add: main_def connect_def empty_world_def get_config_good_ini create_engine_def
      days_unusual_sale_counts_def anomalies_Nil)

text \<open>
  C4, as the code behaves. When the input collection of daily counts is empty, the
  detector raises no error: the quartiles, iqr and both bounds are NaN, and the CSV file
  is written with no data row.
\<close>

theorem empty_input_writes_no_rows:
  assumes "database w = Inr []"
  shows "days_unusual_sale_counts w engine = Inr []
       \<and> q_1 [] = NaN \<and> q_3 [] = NaN \<and> iqr [] = NaN \<and> lower_bound [] = NaN \<and> upper_bound [] = NaN"
  using assms
  by (simp add: days_unusual_sale_counts_def anomalies_Nil q_1_def q_3_def iqr_def lower_bound_def
      upper_bound_def quantile_def)

theorem empty_input_writes_no_rows_witness:
  "database empty_world = Inr []
   \<and> days_unusual_sale_counts empty_world Map.empty = Inr []
   \<and> q_1 [] = NaN \<and> q_3 [] = NaN \<and> iqr [] = NaN \<and> lower_bound [] = NaN \<and> upper_bound [] = NaN"
proof -
  have h: "database empty_world = Inr []" by (simp add: empty_world_def)
  show ?thesis using h empty_input_writes_no_rows [OF h, of Map.empty] by simp
qed


end
